theory Spec2Isabelle
  imports Main "HOL-Library.Signed_Division"
begin

section \<open>Data model and operations\<close>

text \<open>
  The definitions follow the C++ sources of the solver function by function. C arrays of a
  fixed small size (\<open>plan[3]\<close>, \<open>rhsbc[3][2]\<close>) are read as functions of the index,
  heap arrays as lists, MPI collectives as functions of the list of the values that the
  ranks contribute. Scalars of type \<open>int\<close> are HOL integers; the few places where the
  source computes in \<open>size_t\<close> are marked.
\<close>

text \<open>How a run can stop: \<open>FLUPS_ERROR\<close> and a failed \<open>FLUPS_CHECK\<close> abort the process;
  reading a variable that was never written is undefined behaviour in C++.\<close>

datatype error = Fatal | Undefined

subsection \<open>Checks and errors (defines.hpp)\<close>

text \<open>
  Modelled from the spec: the macros \<open>FLUPS_CHECK\<close> and \<open>FLUPS_ERROR\<close> of defines.hpp,
  which is not among the sources. Section 7 of the specification: a configuration
  error or a violated invariant prints its location and aborts the process; no error is
  recovered. \<open>FLUPS_ERROR\<close> always stops the run, \<open>FLUPS_CHECK\<close> stops it when its
  condition is false.
\<close>

definition FLUPS_ERROR :: "error + 'a" where
  "FLUPS_ERROR = Inl Fatal"



subsection \<open>Solver::Solver: the derivative boundary conditions (Solver.cpp)\<close>

text \<open>The boundary condition of one side of one direction (enum \<open>BoundaryType\<close>).\<close>

datatype BoundaryType = EVEN | ODD | PER | UNB

text \<open>
  \<^verbatim>\<open>
  if(_odiff){
    for (int id = 0; id < 3; id++) for(int is=0; is<2; is++){
      for(int lia=0; lia<_lda; lia++){
        if(rhsbc[id][is][lia] == EVEN)      diffbc[id][is][lia] = ODD;
        else if (rhsbc[id][is][lia] == ODD) diffbc[id][is][lia] = EVEN;
        else                                diffbc[id][is][lia] = rhsbc[id][is][lia];
  }}}
  \<close>
  The input \<open>rhsbc[3][2]\<close> holds pointers to \<open>_lda\<close> entries each; it is read as a
  function of the three indices. \<open>diffbc\<close> is only allocated and filled when
  \<open>_odiff\<close> is non-zero: \<open>None\<close> stands for the arrays that were never set.
\<close>

definition init_diffbc ::
  "int \<Rightarrow> nat \<Rightarrow> (nat \<Rightarrow> nat \<Rightarrow> nat \<Rightarrow> BoundaryType) \<Rightarrow> BoundaryType list list list option" where
  "init_diffbc odiff lda rhsbc =
     (if odiff \<noteq> 0 then
        Some (map (\<lambda>id. map (\<lambda>is. map (\<lambda>lia.
                if rhsbc id is lia = EVEN then ODD
                else if rhsbc id is lia = ODD then EVEN
                else rhsbc id is lia) [0..<lda]) [0..<2]) [0..<3])
      else None)"

text \<open>
  The backward plans with derivative are created after the sort, in the order of the
  sorted backward plans:
  \<^verbatim>\<open>
  if(_odiff){
    for (int id = 0; id < 3; id++) {
      const int dimID = _plan_backward[id]->dimID();
      _plan_backward_diff[id] = new FFTW_plan_dim(_lda, dimID, h, L, diffbc[dimID], FLUPS_BACKWARD, false);
  }}
  \<close>
  The class \<open>FFTW_plan_dim\<close> is not part of the sources at hand, so a new plan is
  represented by the arguments that decide it here: its direction and the boundary
  conditions it is given. \<open>backward_dimID id\<close> is \<open>_plan_backward[id]->dimID()\<close>.
  Indexing \<open>diffbc\<close> with a direction outside 0..2 would read outside the array.
\<close>

definition init_plan_backward_diff ::
  "int \<Rightarrow> nat \<Rightarrow> (nat \<Rightarrow> nat \<Rightarrow> nat \<Rightarrow> BoundaryType) \<Rightarrow> (nat \<Rightarrow> nat)
     \<Rightarrow> error + (nat \<times> BoundaryType list list) list option" where
  "init_plan_backward_diff odiff lda rhsbc backward_dimID =
     (case init_diffbc odiff lda rhsbc of
        None \<Rightarrow> Inr None
      | Some diffbc \<Rightarrow>
          if \<exists>id \<in> set [0..<3]. \<not> backward_dimID id < 3 then Inl Undefined
          else Inr (Some (map (\<lambda>id. let dimID = backward_dimID id in (dimID, diffbc ! dimID)) [0..<3])))"

subsection \<open>Solver::_sort_plans (Solver.cpp)\<close>

text \<open>
  The three plans are the array \<open>plan[3]\<close>, read as a function of the index; the class
  \<open>FFTW_plan_dim\<close> is kept abstract and \<open>type\<close> is its accessor
  \<open>plan[id]->type()\<close>, the category priority, an \<open>int\<close>.
  \<^verbatim>\<open>
  int id_min, val_min = INT_MAX;
  int priority[3];
  for (int id = 0; id < 3; id++) {
      priority[id] = plan[id]->type();
      if (priority[id] < val_min) { id_min = id; val_min = priority[id]; }
  }
  \<close>
  \<open>id_min\<close> starts uninitialised: it is \<open>None\<close> until the loop writes it.
\<close>

definition INT_MAX :: int where
  "INT_MAX = 2147483647"

definition find_min_plan :: "(nat \<Rightarrow> int) \<Rightarrow> nat option \<times> int" where
  "find_min_plan priority =
     fold (\<lambda>id (id_min, val_min).
             if priority id < val_min then (Some id, priority id) else (id_min, val_min))
          [0..<3] (None, INT_MAX)"

text \<open>
  \<^verbatim>\<open>
  if (id_min == 0) {
      if (priority[1] > priority[2]) { temp_plan = plan[2]; plan[2] = plan[1]; plan[1] = temp_plan; }
  } else {
      temp_priority = priority[id_min];  temp_plan = plan[id_min];
      plan[id_min] = plan[0];            plan[0] = temp_plan;
      priority[id_min] = priority[0];    priority[0] = temp_priority;
      if (priority[1] > priority[2]) { temp_plan = plan[2]; plan[2] = plan[1]; plan[1] = temp_plan; }
  }
  FLUPS_CHECK((plan[0]->type() <= plan[1]->type()) && (plan[1]->type() <= plan[2]->type()), ...);
  \<close>
\<close>

definition swap12 :: "(nat \<Rightarrow> 'p) \<Rightarrow> (nat \<Rightarrow> 'p)" where
  "swap12 plan = (let temp_plan = plan 2; plan = plan(2 := plan 1) in plan(1 := temp_plan))"

definition sort_plans :: "('p \<Rightarrow> int) \<Rightarrow> (nat \<Rightarrow> 'p) \<Rightarrow> error + (nat \<Rightarrow> 'p)" where
  "sort_plans type plan =
     (let priority = (\<lambda>id. type (plan id)) in
      case fst (find_min_plan priority) of
        None \<Rightarrow> Inl Undefined
      | Some id_min \<Rightarrow>
          let sorted_plan =
            (if id_min = 0 then
               (if priority 1 > priority 2 then swap12 plan else plan)
             else
               (let temp_priority = priority id_min;
                    temp_plan = plan id_min;
                    plan = plan(id_min := plan 0);
                    plan = plan(0 := temp_plan);
                    priority = priority(id_min := priority 0);
                    priority = priority(0 := temp_priority)
                in if priority 1 > priority 2 then swap12 plan else plan))
          in if type (sorted_plan 0) \<le> type (sorted_plan 1) \<and> type (sorted_plan 1) \<le> type (sorted_plan 2)
             then Inr sorted_plan else Inl Fatal)"

text \<open>The rearrangement of three slots that sends slot 0 to \<open>a\<close>, 1 to \<open>b\<close>, 2 to \<open>c\<close>
  (used to name the outcome of the sort).\<close>

definition perm3 :: "nat \<Rightarrow> nat \<Rightarrow> nat \<Rightarrow> nat \<Rightarrow> nat" where
  "perm3 a b c i = (if i = 0 then a else if i = 1 then b else if i = 2 then c else i)"

subsection \<open>SwitchTopo_a2a::SwitchTopo_a2a: the block size (SwitchTopo_a2a.cpp)\<close>

text \<open>
  \<^verbatim>\<open>static inline int gcd(int a, int b) { return (a == 0) ? b : gcd(b % a, a); }\<close>
  (SwitchTopo.hpp). The operator \<open>%\<close> of C++ truncates towards zero: it is \<open>smod\<close>.
\<close>

function gcd_c :: "int \<Rightarrow> int \<Rightarrow> int" where
  "gcd_c a b = (if a = 0 then b else gcd_c (b smod a) a)"
  by pat_completeness auto
termination
proof (relation "measure (\<lambda>(a, b). nat \<bar>a\<bar>)")
  show "wf (measure (\<lambda>(a, b). nat \<bar>a\<bar>))" by simp
next
  fix a b :: int
  assume "a \<noteq> 0"
  then have "\<bar>b smod a\<bar> < \<bar>a\<bar>"
    using smod_int_range [where a = b and b = a] by auto
  then show "((b smod a, a), (a, b)) \<in> measure (\<lambda>(a, b). nat \<bar>a\<bar>)" by simp
qed

text \<open>
  What one process knows, in one direction \<open>id\<close>, when the block size is computed:
  the bounds of the zone it shares with the other topology, on the input side
  (\<open>_istart[id]\<close>, \<open>_iend[id]\<close>) and on the output side (\<open>_ostart[id]\<close>,
  \<open>_oend[id]\<close>), and its place in the two process grids
  (\<open>_topo_in->rankd(id)\<close>, \<open>_topo_in->nproc(id)\<close>, and the same for \<open>_topo_out\<close>).
\<close>

record proc_dir =
  istart :: int
  iend :: int
  ostart :: int
  oend :: int
  in_rankd :: int
  in_nproc :: int
  out_rankd :: int
  out_nproc :: int

text \<open>
  \<^verbatim>\<open>
  int isend = (_iend[id] - _istart[id]);
  int osend = (_oend[id] - _ostart[id]);
  MPI_Allreduce(&isend,&_exSize[id],1,MPI_INT,MPI_SUM,MPI_COMM_WORLD);
  // if I am the last one, I decrease the blocksize by one if needed
  if(_topo_in->rankd(id) == (_topo_in->nproc(id)-1)){ isend = isend - _exSize[id]%2; }
  if(_topo_out->rankd(id) == (_topo_out->nproc(id)-1)){ osend = osend - _exSize[id]%2; }
  int npoints = gcd(isend,osend);
  MPI_Allgather(&npoints, 1, MPI_INT, nperProc, 1, MPI_INT, MPI_COMM_WORLD);
  int my_gcd = nperProc[0];
  for (int ip = 1; ip < comm_size; ip++) { my_gcd = gcd(my_gcd, nperProc[ip]); }
  _nByBlock[id] = my_gcd;
  \<close>
  The processes of \<open>MPI_COMM_WORLD\<close> are the list \<open>procs\<close>, in rank order: the
  all-reduce is the sum over the list, the all-gather the list of the contributions, and
  every process ends with the same \<open>_nByBlock[id]\<close>.
\<close>

definition exSize_of :: "proc_dir list \<Rightarrow> int" where
  "exSize_of procs = sum_list (map (\<lambda>p. iend p - istart p) procs)"

definition isend_of :: "int \<Rightarrow> proc_dir \<Rightarrow> int" where
  "isend_of exSize p =
     (let isend = iend p - istart p
      in if in_rankd p = in_nproc p - 1 then isend - exSize smod 2 else isend)"

definition osend_of :: "int \<Rightarrow> proc_dir \<Rightarrow> int" where
  "osend_of exSize p =
     (let osend = oend p - ostart p
      in if out_rankd p = out_nproc p - 1 then osend - exSize smod 2 else osend)"

definition cmpt_nByBlock :: "proc_dir list \<Rightarrow> int" where
  "cmpt_nByBlock procs =
     (let exSize = exSize_of procs;
          nperProc = map (\<lambda>p. gcd_c (isend_of exSize p) (osend_of exSize p)) procs
      in fold (\<lambda>ip my_gcd. gcd_c my_gcd (nperProc ! ip)) [1..<length procs] (nperProc ! 0))"

subsection \<open>SwitchTopo_a2a::_setup_subComm: counts and starts (SwitchTopo_a2a.cpp)\<close>

text \<open>
  \<^verbatim>\<open>
  MPI_Allgather(&newrank, 1, MPI_INT, newRanks, 1, MPI_INT, MPI_COMM_WORLD);
  for (int ib = 0; ib < nBlock[0] * nBlock[1] * nBlock[2]; ib++) {
      destRank[ib] = newRanks[destRank[ib]];
  }
  (*count) = malloc(subsize * sizeof(int));     (*start) = malloc(subsize * sizeof(int));
  std::memset((*count), 0, subsize * sizeof(int));
  std::memset((*start), 0, subsize * sizeof(int));
  const int blockMem = get_blockMemSize();
  for (int ib = 0; ib < nBlock[0] * nBlock[1] * nBlock[2]; ib++) {
      (*count)[destRank[ib]] += blockMem;
  }
  (*start)[0] = 0;
  for (int ir = 1; ir < subsize; ir++) {
      (*start)[ir] = (*start)[ir-1] + (*count)[ir];
  }
  \<close>
  \<open>newRanks\<close> is the gathered list of the ranks in the new communicator,
  \<open>blockMem\<close> the value of \<open>get_blockMemSize()\<close>, \<open>destRank\<close> the table of the
  \<open>nBlock[0] * nBlock[1] * nBlock[2]\<close> blocks. A destination outside the
  sub-communicator would write outside \<open>count\<close>.
\<close>

definition cmpt_count :: "nat \<Rightarrow> int \<Rightarrow> nat list \<Rightarrow> int list" where
  "cmpt_count subsize blockMem destRank =
     fold (\<lambda>ib count. count[destRank ! ib := count ! (destRank ! ib) + blockMem])
          [0..<length destRank] (replicate subsize 0)"

definition cmpt_start :: "nat \<Rightarrow> int list \<Rightarrow> int list" where
  "cmpt_start subsize count =
     fold (\<lambda>ir start. start[ir := start ! (ir - 1) + count ! ir])
          [1..<subsize] ((replicate subsize 0)[0 := 0])"

definition setup_subComm ::
  "nat list \<Rightarrow> nat \<Rightarrow> int \<Rightarrow> nat list \<Rightarrow> error + (nat list \<times> int list \<times> int list)" where
  "setup_subComm newRanks subsize blockMem destRank =
     (if \<exists>r \<in> set destRank. \<not> r < length newRanks then Inl Undefined
      else
        let destRank = map (\<lambda>r. newRanks ! r) destRank in
        if \<exists>r \<in> set destRank. \<not> r < subsize then Inl Undefined
        else
          let count = cmpt_count subsize blockMem destRank;
              start = cmpt_start subsize count
          in Inr (destRank, count, start))"

text \<open>
  The first version of the transpose (SwitchTopo::SwitchTopo, SwitchTopo.cpp) computes
  its displacements for the same \<open>MPI_Alltoallv\<close> from arrays set to zero:
  \<^verbatim>\<open>
  for (int i = 1; i < comm_size; ++i) {
      _ssend[i] = _ssend[i - 1] + _nsend[i - 1];
      _srecv[i] = _srecv[i - 1] + _nrecv[i - 1];
  }
  \<close>
\<close>

definition cmpt_ssend_srecv :: "nat \<Rightarrow> int list \<Rightarrow> int list \<Rightarrow> int list \<times> int list" where
  "cmpt_ssend_srecv comm_size nsend nrecv =
     fold (\<lambda>i (ssend, srecv).
             (ssend[i := ssend ! (i - 1) + nsend ! (i - 1)],
              srecv[i := srecv ! (i - 1) + nrecv ! (i - 1)]))
          [1..<comm_size] (replicate comm_size 0, replicate comm_size 0)"

text \<open>
  SwitchTopo_a2a::setup_buffers places the block of each destination after the counts of
  the ranks below it:
  \<^verbatim>\<open>
  size_t memblocks = 0;
  for (int ir = 0; ir < destrank; ir++) { memblocks += (size_t)_i2o_count[ir]; }
  _sendBuf[ib] = sendData + memblocks;
  \<close>
\<close>

definition memblocks :: "int list \<Rightarrow> nat \<Rightarrow> int" where
  "memblocks count destrank = fold (\<lambda>ir m. m + count ! ir) [0..<destrank] 0"

subsection \<open>SwitchTopo_a2a: uniform or variable all-to-all (SwitchTopo_a2a.cpp)\<close>

text \<open>
  At the end of the constructor:
  \<^verbatim>\<open>
  int tmp_size  = _i2o_count[0];
  _is_all2all = (tmp_size != 0);
  for (int ir = 1; ir < subsize; ir++) {
      // if the count from and to the rank is the same, we can do an A2A
      _is_all2all = _is_all2all && (tmp_size == _i2o_count[ir]);
      _is_all2all = _is_all2all && (tmp_size == _o2i_count[ir]);
  }
  \<close>
\<close>

definition cmpt_is_all2all :: "nat \<Rightarrow> int list \<Rightarrow> int list \<Rightarrow> bool" where
  "cmpt_is_all2all subsize i2o_count o2i_count =
     (let tmp_size = i2o_count ! 0 in
      fold (\<lambda>ir is_all2all.
              (is_all2all \<and> tmp_size = i2o_count ! ir) \<and> tmp_size = o2i_count ! ir)
           [1..<subsize] (tmp_size \<noteq> 0))"

text \<open>
  The part of the descriptor that the exchange reads, and the call that
  SwitchTopo_a2a::execute makes between packing and unpacking:
  \<^verbatim>\<open>
  if (sign == FLUPS_FORWARD) {
      send_count = _i2o_count; recv_count = _o2i_count; send_start = _i2o_start; recv_start = _o2i_start;
  } else if (sign == FLUPS_BACKWARD) {
      send_count = _o2i_count; recv_count = _i2o_count; send_start = _o2i_start; recv_start = _i2o_start;
  } else { FLUPS_CHECK(false, "the sign is not FLUPS_FORWARD nor FLUPS_BACKWARD", LOCATION); }
  ...
  if (_is_all2all) {
      MPI_Alltoall(sendBuf[0], send_count[0], MPI_DOUBLE, recvBuf[0], recv_count[0], MPI_DOUBLE, _subcomm);
  } else {
      MPI_Alltoallv(sendBuf[0], send_count, send_start, MPI_DOUBLE, recvBuf[0], recv_count, recv_start, MPI_DOUBLE, _subcomm);
  }
  \<close>
\<close>

text \<open>The values that are passed as \<open>sign\<close> in the solver; \<open>execute\<close> of a transpose knows
  the first two and refuses anything else.\<close>

datatype sign = FLUPS_FORWARD | FLUPS_BACKWARD | FLUPS_BACKWARD_DIFF

record a2a_counts =
  i2o_count :: "int list"
  o2i_count :: "int list"
  i2o_start :: "int list"
  o2i_start :: "int list"
  is_all2all :: bool

datatype exchange =
    MPI_Alltoall int int
  | MPI_Alltoallv "int list" "int list" "int list" "int list"

definition execute_exchange :: "a2a_counts \<Rightarrow> sign \<Rightarrow> error + exchange" where
  "execute_exchange st sign =
     (if sign \<noteq> FLUPS_FORWARD \<and> sign \<noteq> FLUPS_BACKWARD then Inl Fatal
      else
        let (send_count, recv_count, send_start, recv_start) =
              (if sign = FLUPS_FORWARD
               then (i2o_count st, o2i_count st, i2o_start st, o2i_start st)
               else (o2i_count st, i2o_count st, o2i_start st, i2o_start st))
        in if is_all2all st
           then Inr (MPI_Alltoall (send_count ! 0) (recv_count ! 0))
           else Inr (MPI_Alltoallv send_count send_start recv_count recv_start))"

text \<open>The constructor's end, from the counts to the descriptor.\<close>

definition init_a2a_counts ::
  "nat \<Rightarrow> int list \<Rightarrow> int list \<Rightarrow> int list \<Rightarrow> int list \<Rightarrow> a2a_counts" where
  "init_a2a_counts subsize i2o_c i2o_s o2i_c o2i_s =
     \<lparr>i2o_count = i2o_c, o2i_count = o2i_c, i2o_start = i2o_s, o2i_start = o2i_s,
      is_all2all = cmpt_is_all2all subsize i2o_c o2i_c\<rparr>"

subsection \<open>Topology: sizes and padding (Topology.cpp)\<close>

text \<open>
  The fields of a \<open>Topology\<close> that its constructor, \<open>cmpt_sizes\<close> and
  \<open>change_comm\<close> read and write. The arrays of three \<open>int\<close> are functions of the
  index 0, 1, 2.
\<close>

record Topology =
  axis :: nat
  nf :: int
  lda :: int
  nglob :: "nat \<Rightarrow> int"
  nproc :: "nat \<Rightarrow> int"
  axproc :: "nat \<Rightarrow> int"
  rankd :: "nat \<Rightarrow> int"
  nloc :: "nat \<Rightarrow> int"
  nmem :: "nat \<Rightarrow> int"
  alignment :: int









subsection \<open>Solver::_scaleGreenFunction (Solver.cpp)\<close>








subsection \<open>The kernel file of the lattice Green's function (green_functions.hpp)\<close>

text \<open>The decimal digits that \<open>sprintf\<close> writes for \<open>%d\<close> (for a number that is not
  negative).\<close>

fun decimal :: "nat \<Rightarrow> string" where
  "decimal n =
     (if n < 10 then [char_of (48 + n)]
      else decimal (n div 10) @ [char_of (48 + n mod 10)])"

declare decimal.simps [simp del]

text \<open>
  \<^verbatim>\<open>
  static void _lgf_readfile(const int greendim, int* N, double** data) {
      char lgfname[512];
      char path[] = STR(KERNEL_PATH);
      if (greendim == 3) {
          (*N) = 64;  sprintf(lgfname, "%s/LGF_3d_sym_acc12_%d.ker", path, (*N));
      } else if (greendim == 2) {
          (*N) = 32;  sprintf(lgfname, "%s/LGF_2d_sym_acc12_%d.ker", path, (*N));
      } else {
          FLUPS_ERROR("Greendim = %d is not available in this version", greendim, LOCATION);
      }
      FILE *lgf_file = fopen(lgfname, "r");
      (*data) = NULL;
      if (lgf_file != NULL) {
          const int size = (*N) * (*N) * (*N);
          (*data) = (double *)flups_malloc(sizeof(double) * size);
          fread((*data), sizeof(double), size, lgf_file);
          fclose(lgf_file);
      } else {
          FLUPS_ERROR("unable to read file %s", lgfname, LOCATION);
      }
  }
  \<close>
  \<open>KERNEL_PATH\<close> is a macro of the build: the parameter \<open>path\<close>. The file system is
  a map from the name of a file to the samples it holds (\<open>None\<close>: the file cannot be
  opened). \<open>fread\<close> stores as many samples as it is asked for, or all that the file
  holds if they are fewer, and its return value is not looked at. The result holds
  \<open>N\<close>, the name that was opened, the number of doubles of the buffer, and the samples
  read into its beginning.
\<close>

record 'd lgf_kernel =
  lgf_N :: int
  lgf_name :: string
  lgf_size :: int
  lgf_samples :: "'d list"

definition fread :: "int \<Rightarrow> 'd list \<Rightarrow> 'd list" where
  "fread count file = take (nat count) file"

definition lgf_readfile :: "string \<Rightarrow> (string \<rightharpoonup> 'd list) \<Rightarrow> int \<Rightarrow> error + 'd lgf_kernel" where
  "lgf_readfile path files greendim =
     (case (if greendim = 3 then Inr (64, path @ ''/LGF_3d_sym_acc12_'' @ decimal 64 @ ''.ker'')
            else if greendim = 2 then Inr (32, path @ ''/LGF_2d_sym_acc12_'' @ decimal 32 @ ''.ker'')
            else FLUPS_ERROR) of
        Inl e \<Rightarrow> Inl e
      | Inr (N', name) \<Rightarrow>
          (case files name of
             Some lgf_file \<Rightarrow>
               let size' = N' * N' * N'
               in Inr \<lparr>lgf_N = N', lgf_name = name, lgf_size = size', lgf_samples = fread size' lgf_file\<rparr>
           | None \<Rightarrow> FLUPS_ERROR))"

subsection \<open>Solver: the derivative order and the kind of solve (Solver.cpp)\<close>


text \<open>
  What the solver keeps of the derivative order. The constructor stores it
  (\<open>_odiff = orderDiff\<close>) and builds the backward plans with derivative when it is not
  zero; \<open>setup\<close> allocates these plans under the same condition:
  \<^verbatim>\<open>
  if (_odiff) { _allocate_plans(_topo_hat, _plan_backward_diff, _data); }
  \<close>
  Neither takes the kind of solve: it is an argument of \<open>solve\<close> only. The other work of
  the constructor and of \<open>setup\<close> (plans, topologies, Green's function) does not
  read \<open>_odiff\<close> and is not part of this record.
\<close>

record Solver =
  odiff :: int
  plan_backward_diff :: "(nat \<times> BoundaryType list list) list option"
  diff_plans_allocated :: bool




section \<open>Properties\<close>

subsection \<open>The derivative boundary conditions\<close>

lemma upt_0_3: "[0..<3] = [0, 1, 2::nat]"
  by (simp add: upt_rec numeral_3_eq_3 numeral_2_eq_2)

lemma upt_0_2: "[0..<2] = [0, 1::nat]"
  by (simp add: upt_rec numeral_2_eq_2)

lemma init_diffbc_entry:
  assumes "orderDiff \<noteq> 0" "dir < 3" "side < 2" "lia < lda'"
  shows "\<exists>d. init_diffbc orderDiff lda' rhsbc = Some d \<and> length d = 3 \<and>
           d ! dir ! side ! lia =
             (case rhsbc dir side lia of EVEN \<Rightarrow> ODD | ODD \<Rightarrow> EVEN | PER \<Rightarrow> PER | UNB \<Rightarrow> UNB)"
  using assms by (simp add: init_diffbc_def split: BoundaryType.split)

text \<open>
  Claim C8. When the solver is built with a derivative order (\<open>_odiff\<close> non-zero), the
  boundary conditions handed to the three backward-with-derivative plans are, for the
  direction of each plan, every side and every component, the right-hand-side boundary
  condition with EVEN and ODD exchanged and PER and UNB left as they are.
\<close>

theorem diffbc_toggles_even_odd:
  assumes "orderDiff \<noteq> 0" and "\<forall>id<3. backward_dimID id < 3"
  shows "\<exists>plans. init_plan_backward_diff orderDiff lda' rhsbc backward_dimID = Inr (Some plans) \<and>
           length plans = 3 \<and>
           (\<forall>id<3. fst (plans ! id) = backward_dimID id \<and>
              (\<forall>side<2. \<forall>lia<lda'.
                 snd (plans ! id) ! side ! lia =
                   (case rhsbc (backward_dimID id) side lia of
                      EVEN \<Rightarrow> ODD | ODD \<Rightarrow> EVEN | PER \<Rightarrow> PER | UNB \<Rightarrow> UNB)))"
proof -
  let ?toggle = "\<lambda>b. case b of EVEN \<Rightarrow> ODD | ODD \<Rightarrow> EVEN | PER \<Rightarrow> PER | UNB \<Rightarrow> UNB"
  obtain d where d: "init_diffbc orderDiff lda' rhsbc = Some d"
    using assms(1) by (simp add: init_diffbc_def)
  have entry: "d ! dir ! side ! lia = ?toggle (rhsbc dir side lia)"
    if "dir < 3" "side < 2" "lia < lda'" for dir side lia
    using init_diffbc_entry [OF assms(1) that, of rhsbc] d by simp
  have inrange: "\<not> (\<exists>id \<in> set [0..<3]. \<not> backward_dimID id < 3)"
    using assms(2) by simp
  let ?plans = "map (\<lambda>id. let dimID = backward_dimID id in (dimID, d ! dimID)) [0..<3]"
  have res: "init_plan_backward_diff orderDiff lda' rhsbc backward_dimID = Inr (Some ?plans)"
    unfolding init_plan_backward_diff_def d using inrange by simp
  have "fst (?plans ! id) = backward_dimID id \<and>
        (\<forall>side<2. \<forall>lia<lda'. snd (?plans ! id) ! side ! lia = ?toggle (rhsbc (backward_dimID id) side lia))"
    if "id < 3" for id
    using that assms(2) entry by (simp add: Let_def)
  with res show ?thesis by auto
qed

theorem diffbc_toggles_even_odd_witness:
  "init_plan_backward_diff 1 1
      (\<lambda>id is lia. if id = 0 then EVEN else if id = 1 then ODD else UNB) (\<lambda>i. (i + 1) mod 3)
    = Inr (Some [(1, [[EVEN], [EVEN]]), (2, [[UNB], [UNB]]), (0, [[ODD], [ODD]])])"
proof -
  have h1: "(1::int) \<noteq> 0" by simp
  have h2: "\<forall>id<3. (\<lambda>i. (i + 1) mod 3) id < (3::nat)" by simp
  from diffbc_toggles_even_odd [OF h1 h2, of 1 "\<lambda>id is lia. if id = 0 then EVEN else if id = 1 then ODD else UNB"]
  obtain plans where
    "init_plan_backward_diff 1 1
       (\<lambda>id is lia. if id = 0 then EVEN else if id = 1 then ODD else UNB) (\<lambda>i. (i + 1) mod 3)
     = Inr (Some plans)" by blast
  moreover have "plans = [(1, [[EVEN], [EVEN]]), (2, [[UNB], [UNB]]), (0, [[ODD], [ODD]])]"
    using calculation
    by (auto simp add: init_plan_backward_diff_def init_diffbc_def upt_0_3 upt_0_2 Let_def numeral_2_eq_2)
  ultimately show ?thesis by simp
qed

subsection \<open>The order of the plans\<close>

lemma find_min_cases:
  "find_min_plan pr =
    (if pr 0 < INT_MAX then
       (if pr 1 < pr 0 then (if pr 2 < pr 1 then (Some 2, pr 2) else (Some 1, pr 1))
        else (if pr 2 < pr 0 then (Some 2, pr 2) else (Some 0, pr 0)))
     else (if pr 1 < INT_MAX then (if pr 2 < pr 1 then (Some 2, pr 2) else (Some 1, pr 1))
           else (if pr 2 < INT_MAX then (Some 2, pr 2) else (None, INT_MAX))))"
  by (simp add: find_min_plan_def upt_0_3)

lemma perm3_bij:
  assumes "{a, b, c} = {0, 1, 2}" "a \<noteq> b" "a \<noteq> c" "b \<noteq> c"
  shows "bij_betw (perm3 a b c) {0, 1, 2} {0, 1, 2}"
proof -
  have "perm3 a b c ` {0, 1, 2} = {a, b, c}" by (auto simp: perm3_def)
  moreover have "inj_on (perm3 a b c) {0, 1, 2}" using assms(2-)
    by (simp add: perm3_def inj_on_def)
  ultimately show ?thesis using assms by (simp add: bij_betw_def)
qed

text \<open>The outcome of the sort, by the slot that holds the first minimum.\<close>

lemma sort_plans_min0:
  assumes "type (plan 0) < INT_MAX" "type (plan 0) \<le> type (plan 1)" "type (plan 0) \<le> type (plan 2)"
  shows "sort_plans type plan =
     Inr (if type (plan 1) > type (plan 2) then (\<lambda>i. plan (perm3 0 2 1 i)) else plan)"
  using assms by (simp add: sort_plans_def find_min_cases swap12_def Let_def perm3_def fun_eq_iff)

lemma sort_plans_min1:
  assumes "type (plan 0) < INT_MAX" "type (plan 1) < type (plan 0)" "type (plan 1) \<le> type (plan 2)"
  shows "sort_plans type plan =
     Inr (if type (plan 0) > type (plan 2) then (\<lambda>i. plan (perm3 1 2 0 i)) else (\<lambda>i. plan (perm3 1 0 2 i)))"
  using assms by (simp add: sort_plans_def find_min_cases swap12_def Let_def perm3_def fun_eq_iff)

lemma sort_plans_min2:
  assumes "type (plan 0) < INT_MAX" "type (plan 2) < type (plan 0)" "type (plan 2) < type (plan 1)"
  shows "sort_plans type plan =
     Inr (if type (plan 1) > type (plan 0) then (\<lambda>i. plan (perm3 2 0 1 i)) else (\<lambda>i. plan (perm3 2 1 0 i)))"
  using assms by (simp add: sort_plans_def find_min_cases swap12_def Let_def perm3_def fun_eq_iff)

text \<open>
  Claim C2. Whatever the order of the three plans on entry (their priorities being
  ordinary enum values, below \<open>INT_MAX\<close>), \<open>_sort_plans\<close> returns normally with the
  same three plans rearranged so that the priorities ascend from slot 0 to slot 2; and
  when the plan of slot 0 already has the lowest priority, ties included, it stays in
  slot 0.
\<close>

theorem sort_plans_ascending:
  assumes "\<forall>i<3. type (plan i) < INT_MAX"
  shows "\<exists>sorted_plan. sort_plans type plan = Inr sorted_plan \<and>
           type (sorted_plan 0) \<le> type (sorted_plan 1) \<and>
           type (sorted_plan 1) \<le> type (sorted_plan 2) \<and>
           (\<exists>p. bij_betw p {0, 1, 2} {0, 1, 2} \<and> (\<forall>i. sorted_plan i = plan (p i))) \<and>
           (type (plan 0) \<le> type (plan 1) \<and> type (plan 0) \<le> type (plan 2) \<longrightarrow> sorted_plan 0 = plan 0)"
proof -
  let ?a = "type (plan 0)" and ?b = "type (plan 1)" and ?c = "type (plan 2)"
  have lt: "?a < INT_MAX" using assms by simp
  have bij_id: "bij_betw (\<lambda>i::nat. i) {0, 1, 2} {0, 1, 2}" by (simp add: bij_betw_def)
  consider (min0) "?a \<le> ?b" "?a \<le> ?c" | (min1) "?b < ?a" "?b \<le> ?c" | (min2) "?c < ?a" "?c < ?b"
    by linarith
  then show ?thesis
  proof cases
    case min0
    show ?thesis
    proof (cases "?c < ?b")
      case True
      with min0 lt have "sort_plans type plan = Inr (\<lambda>i. plan (perm3 0 2 1 i))"
        by (simp add: sort_plans_min0)
      moreover have "bij_betw (perm3 0 2 1) {0, 1, 2} {0, 1, 2}" by (rule perm3_bij) auto
      ultimately show ?thesis using min0 True by (auto simp: perm3_def)
    next
      case False
      with min0 lt have "sort_plans type plan = Inr plan"
        by (simp add: sort_plans_min0)
      then show ?thesis using min0 False bij_id by auto
    qed
  next
    case min1
    show ?thesis
    proof (cases "?c < ?a")
      case True
      with min1 lt have "sort_plans type plan = Inr (\<lambda>i. plan (perm3 1 2 0 i))"
        by (simp add: sort_plans_min1)
      moreover have "bij_betw (perm3 1 2 0) {0, 1, 2} {0, 1, 2}" by (rule perm3_bij) auto
      ultimately show ?thesis using min1 True by (auto simp: perm3_def)
    next
      case False
      with min1 lt have "sort_plans type plan = Inr (\<lambda>i. plan (perm3 1 0 2 i))"
        by (simp add: sort_plans_min1)
      moreover have "bij_betw (perm3 1 0 2) {0, 1, 2} {0, 1, 2}" by (rule perm3_bij) auto
      ultimately show ?thesis using min1 False by (auto simp: perm3_def)
    qed
  next
    case min2
    show ?thesis
    proof (cases "?a < ?b")
      case True
      with min2 lt have "sort_plans type plan = Inr (\<lambda>i. plan (perm3 2 0 1 i))"
        by (simp add: sort_plans_min2)
      moreover have "bij_betw (perm3 2 0 1) {0, 1, 2} {0, 1, 2}" by (rule perm3_bij) auto
      ultimately show ?thesis using min2 True by (auto simp: perm3_def)
    next
      case False
      with min2 lt have "sort_plans type plan = Inr (\<lambda>i. plan (perm3 2 1 0 i))"
        by (simp add: sort_plans_min2)
      moreover have "bij_betw (perm3 2 1 0) {0, 1, 2} {0, 1, 2}" by (rule perm3_bij) auto
      ultimately show ?thesis using min2 False by (auto simp: perm3_def)
    qed
  qed
qed

theorem sort_plans_ascending_witness:
  "\<exists>sorted_plan.
      sort_plans fst (\<lambda>i::nat. if i = 0 then (6::int, 0::nat) else if i = 1 then (2, 1) else (5, 2)) = Inr sorted_plan \<and>
      sorted_plan 0 = (2, 1) \<and> sorted_plan 1 = (5, 2) \<and> sorted_plan 2 = (6, 0)"
proof -
  let ?plan = "\<lambda>i::nat. if i = 0 then (6::int, 0::nat) else if i = 1 then (2, 1) else (5, 2)"
  have h: "\<forall>i<3. fst (?plan i) < INT_MAX" by (simp add: INT_MAX_def)
  have "sort_plans fst ?plan = Inr (\<lambda>i. ?plan (perm3 1 2 0 i))"
    by (simp add: sort_plans_min1 INT_MAX_def)
  with sort_plans_ascending [of fst ?plan, OF h] show ?thesis by (simp add: perm3_def)
qed

subsection \<open>The block size of the all-to-all transpose\<close>

text \<open>On extents that are not negative the recursive \<open>gcd\<close> of the source is the
  greatest common divisor.\<close>

lemma gcd_c_nonneg:
  "0 \<le> a \<Longrightarrow> 0 \<le> b \<Longrightarrow> gcd_c a b = gcd a b"
proof (induction a b rule: gcd_c.induct)
  case (1 a b)
  show ?case
  proof (cases "a = 0")
    case True
    with 1 show ?thesis by simp
  next
    case False
    with 1 have pos: "0 < a" by simp
    have sm: "b smod a = b mod a" using pos 1(3) by (simp add: smod_int_alt_def sgn_if)
    have "gcd_c a b = gcd_c (b mod a) a" using False sm by (subst gcd_c.simps) simp
    also have "\<dots> = gcd (b mod a) a" using 1(1) [OF False] sm pos 1(2) by simp
    also have "\<dots> = gcd a b" by (metis gcd.commute gcd_red_int)
    finally show ?thesis .
  qed
qed

lemma fold_gcd_c_upt:
  assumes "\<forall>x \<in> set xs. 0 \<le> x" "1 \<le> n" "n \<le> length xs"
  shows "fold (\<lambda>ip my_gcd. gcd_c my_gcd (xs ! ip)) [1..<n] (xs ! 0) = Gcd (set (take n xs))"
  using assms(2,3)
proof (induction n rule: dec_induct)
  case base
  have "xs \<noteq> []" using assms by auto
  then have "take 1 xs = [xs ! 0]" by (cases xs) simp_all
  moreover have "0 \<le> xs ! 0" using assms \<open>xs \<noteq> []\<close> by simp
  ultimately show ?case by simp
next
  case (step n)
  then have n: "n < length xs" by simp
  have nn: "0 \<le> xs ! n" using assms(1) n by simp
  have "fold (\<lambda>ip my_gcd. gcd_c my_gcd (xs ! ip)) [1..<Suc n] (xs ! 0)
        = gcd_c (Gcd (set (take n xs))) (xs ! n)"
    using step by simp
  also have "\<dots> = gcd (Gcd (set (take n xs))) (xs ! n)"
    by (rule gcd_c_nonneg) (simp_all add: nn)
  also have "\<dots> = Gcd (set (take (Suc n) xs))"
    using n by (simp add: take_Suc_conv_app_nth gcd.commute)
  finally show ?case .
qed

lemma Gcd_map_gcd:
  "Gcd (set (map (\<lambda>p. gcd (f p) (g p)) ps)) = Gcd (\<Union>p \<in> set ps. {f p, g p :: int})"
proof (induction ps)
  case Nil
  show ?case by simp
next
  case (Cons p ps)
  have "Gcd (set (map (\<lambda>p. gcd (f p) (g p)) (p # ps)))
        = gcd (gcd (f p) (g p)) (Gcd (set (map (\<lambda>p. gcd (f p) (g p)) ps)))" by simp
  also have "\<dots> = gcd (f p) (gcd (g p) (Gcd (\<Union>p \<in> set ps. {f p, g p})))"
    unfolding Cons.IH by (rule gcd.assoc)
  also have "\<dots> = Gcd (insert (f p) (insert (g p) (\<Union>p \<in> set ps. {f p, g p})))"
    by (simp only: Gcd_insert)
  also have "insert (f p) (insert (g p) (\<Union>p \<in> set ps. {f p, g p})) = (\<Union>p \<in> set (p # ps). {f p, g p})"
    by auto
  finally show ?case .
qed

lemma extents_unadjusted_when_even:
  assumes "even (exSize_of procs)"
  shows "isend_of (exSize_of procs) p = iend p - istart p"
    and "osend_of (exSize_of procs) p = oend p - ostart p"
proof -
  have "exSize_of procs smod 2 = 0"
    using assms by (simp add: smod_int_alt_def)
  then show "isend_of (exSize_of procs) p = iend p - istart p"
    and "osend_of (exSize_of procs) p = oend p - ostart p"
    by (simp_all add: isend_of_def osend_of_def Let_def)
qed

text \<open>Whatever the signs, the recursive \<open>gcd\<close> of the source returns the greatest common
  divisor or its opposite.\<close>

lemma gcd_smod:
  fixes a b :: int
  shows "gcd (b smod a) a = gcd a b"
proof -
  have "gcd (b smod a) a = gcd (\<bar>b\<bar> mod \<bar>a\<bar>) \<bar>a\<bar>"
    by (simp add: smod_int_alt_def sgn_if)
  also have "\<dots> = gcd \<bar>a\<bar> \<bar>b\<bar>" by (metis gcd.commute gcd_red_int)
  also have "\<dots> = gcd a b" by simp
  finally show ?thesis .
qed

lemma gcd_c_abs: "\<bar>gcd_c a b\<bar> = gcd a b"
proof (induction a b rule: gcd_c.induct)
  case (1 a b)
  show ?case
  proof (cases "a = 0")
    case True
    have "gcd_c a b = b" using True by (subst gcd_c.simps) (simp del: gcd_c.simps)
    then show ?thesis using True by (simp del: gcd_c.simps)
  next
    case False
    have "gcd_c a b = gcd_c (b smod a) a"
      using False by (subst gcd_c.simps) (simp del: gcd_c.simps)
    then have "\<bar>gcd_c a b\<bar> = \<bar>gcd_c (b smod a) a\<bar>" by (simp only:)
    also have "\<dots> = gcd (b smod a) a" by (rule 1 [OF False])
    also have "\<dots> = gcd a b" by (rule gcd_smod)
    finally show ?thesis .
  qed
qed

lemma fold_gcd_c_abs:
  assumes "1 \<le> n" "n \<le> length xs"
  shows "\<bar>fold (\<lambda>ip my_gcd. gcd_c my_gcd (xs ! ip)) [1..<n] (xs ! 0)\<bar> = Gcd (set (take n xs))"
  using assms
proof (induction n rule: dec_induct)
  case base
  have "xs \<noteq> []" using base by auto
  then have "take 1 xs = [xs ! 0]" by (cases xs) simp_all
  then show ?case by (simp del: gcd_c.simps)
next
  case (step n)
  then have n: "n < length xs" by simp
  let ?acc = "fold (\<lambda>ip my_gcd. gcd_c my_gcd (xs ! ip)) [1..<n] (xs ! 0)"
  have IH: "\<bar>?acc\<bar> = Gcd (set (take n xs))" using step by (simp del: gcd_c.simps)
  have "fold (\<lambda>ip my_gcd. gcd_c my_gcd (xs ! ip)) [1..<Suc n] (xs ! 0) = gcd_c ?acc (xs ! n)"
    using step by (simp del: gcd_c.simps)
  then have "\<bar>fold (\<lambda>ip my_gcd. gcd_c my_gcd (xs ! ip)) [1..<Suc n] (xs ! 0)\<bar> = gcd ?acc (xs ! n)"
    by (simp only: gcd_c_abs)
  also have "\<dots> = gcd \<bar>?acc\<bar> (xs ! n)" by (simp del: gcd_c.simps)
  also have "\<dots> = gcd (Gcd (set (take n xs))) (xs ! n)" by (simp only: IH)
  also have "\<dots> = Gcd (set (take (Suc n) xs))"
    using n by (simp add: take_Suc_conv_app_nth gcd.commute del: gcd_c.simps)
  finally show ?case .
qed

lemma Gcd_map_gcd_c:
  "Gcd (set (map (\<lambda>p. gcd_c (f p) (g p)) ps)) = Gcd (\<Union>p \<in> set ps. {f p, g p :: int})"
proof -
  have "Gcd (set (map (\<lambda>p. gcd_c (f p) (g p)) ps)) = Gcd (set (map (\<lambda>p. gcd (f p) (g p)) ps))"
  proof (induction ps)
    case Nil
    show ?case by simp
  next
    case (Cons p ps)
    have "gcd (gcd_c (f p) (g p)) r = gcd (gcd (f p) (g p)) r" for r
    proof -
      have "gcd (gcd_c (f p) (g p)) r = gcd \<bar>gcd_c (f p) (g p)\<bar> r"
        by (simp del: gcd_c.simps)
      then show ?thesis by (simp only: gcd_c_abs)
    qed
    then show ?case using Cons.IH by (simp del: gcd_c.simps)
  qed
  then show ?thesis by (simp only: Gcd_map_gcd)
qed

lemma nByBlock_abs:
  assumes "procs \<noteq> []"
  shows "\<bar>cmpt_nByBlock procs\<bar> =
           Gcd (\<Union>p \<in> set procs. {isend_of (exSize_of procs) p, osend_of (exSize_of procs) p})"
proof -
  define e where "e = exSize_of procs"
  define np where "np = map (\<lambda>p. gcd_c (isend_of e p) (osend_of e p)) procs"
  have len: "1 \<le> length np" "length np = length procs"
    using assms by (cases procs; simp add: np_def del: gcd_c.simps)+
  have "cmpt_nByBlock procs = fold (\<lambda>ip my_gcd. gcd_c my_gcd (np ! ip)) [1..<length np] (np ! 0)"
    unfolding cmpt_nByBlock_def Let_def np_def e_def by (simp del: gcd_c.simps)
  then have "\<bar>cmpt_nByBlock procs\<bar> = Gcd (set (take (length np) np))"
    using fold_gcd_c_abs [OF len(1), of np] by (simp del: gcd_c.simps)
  also have "\<dots> = Gcd (set np)" by simp
  also have "\<dots> = Gcd (\<Union>p \<in> set procs. {isend_of e p, osend_of e p})"
    unfolding np_def by (rule Gcd_map_gcd_c)
  finally show ?thesis unfolding e_def .
qed

lemma nByBlock_nonneg:
  assumes "procs \<noteq> []"
    and "\<forall>p \<in> set procs. 0 \<le> isend_of (exSize_of procs) p \<and> 0 \<le> osend_of (exSize_of procs) p"
  shows "cmpt_nByBlock procs =
           Gcd (\<Union>p \<in> set procs. {isend_of (exSize_of procs) p, osend_of (exSize_of procs) p})"
proof -
  define e where "e = exSize_of procs"
  define np where "np = map (\<lambda>p. gcd_c (isend_of e p) (osend_of e p)) procs"
  have np: "np = map (\<lambda>p. gcd (isend_of e p) (osend_of e p)) procs"
    unfolding np_def using assms(2) by (intro map_cong refl gcd_c_nonneg) (simp_all add: e_def)
  have nonneg: "\<forall>x \<in> set np. 0 \<le> x" unfolding np by (simp add: image_iff)
  have len: "1 \<le> length np" "length np = length procs"
    using assms(1) by (cases procs; simp add: np_def del: gcd_c.simps)+
  have "cmpt_nByBlock procs = fold (\<lambda>ip my_gcd. gcd_c my_gcd (np ! ip)) [1..<length np] (np ! 0)"
    unfolding cmpt_nByBlock_def Let_def np_def e_def by (simp del: gcd_c.simps)
  also have "\<dots> = Gcd (set (take (length np) np))"
    by (rule fold_gcd_c_upt [OF nonneg len(1)]) simp
  also have "\<dots> = Gcd (set np)" by simp
  also have "\<dots> = Gcd (\<Union>p \<in> set procs. {isend_of e p, osend_of e p})"
    unfolding np by (rule Gcd_map_gcd)
  finally show ?thesis unfolding e_def .
qed

text \<open>
  Claim C3, as the code has it. On a communicator of at least one process and in every
  direction, the block extent \<open>_nByBlock[id]\<close> is in absolute value the greatest common
  divisor, over all processes, of the send extent and the receive extent of the shared
  zone, where the extent of a process that is the last one of the direction (in the
  input topology for the send extent, in the output topology for the receive extent) is
  first reduced by \<open>_exSize[id] % 2\<close>, the remainder by two of the summed send extents.
  It is that greatest common divisor itself when no extent is negative after the
  reduction. (An extent of zero on a last process with an odd sum becomes \<open>-1\<close>, and the
  block extent that is stored can then be negative: see the lemma after the theorem.)
\<close>

theorem nByBlock_is_gcd_of_adjusted_extents:
  assumes "procs \<noteq> []"
  shows "\<bar>cmpt_nByBlock procs\<bar> =
           Gcd (\<Union>p \<in> set procs. {isend_of (exSize_of procs) p, osend_of (exSize_of procs) p})
       \<and> ((\<forall>p \<in> set procs. 0 \<le> isend_of (exSize_of procs) p \<and> 0 \<le> osend_of (exSize_of procs) p)
            \<longrightarrow> cmpt_nByBlock procs =
                  Gcd (\<Union>p \<in> set procs. {isend_of (exSize_of procs) p, osend_of (exSize_of procs) p}))"
  using nByBlock_abs [OF assms] nByBlock_nonneg [OF assms] by blast

text \<open>Two processes that send 4 and 7 points and receive 2 and 9: the sum of the send
  extents, 11, is odd, the last process counts 6 and 8, and the blocks have 2 points,
  where the extents as they are have the greatest common divisor 1.\<close>

theorem nByBlock_is_gcd_of_adjusted_extents_witness:
  "cmpt_nByBlock
     [\<lparr>istart = 0, iend = 4, ostart = 0, oend = 2, in_rankd = 0, in_nproc = 2, out_rankd = 0, out_nproc = 2\<rparr>,
      \<lparr>istart = 0, iend = 7, ostart = 0, oend = 9, in_rankd = 1, in_nproc = 2, out_rankd = 1, out_nproc = 2\<rparr>]
   = 2"
proof -
  let ?pA = "\<lparr>istart = 0, iend = 4, ostart = 0, oend = 2, in_rankd = 0, in_nproc = 2, out_rankd = 0, out_nproc = 2\<rparr>"
  let ?pB = "\<lparr>istart = 0, iend = 7, ostart = 0, oend = 9, in_rankd = 1, in_nproc = 2, out_rankd = 1, out_nproc = 2\<rparr>"
  have e: "exSize_of [?pA, ?pB] = 11" by (simp add: exSize_of_def)
  have x: "isend_of 11 ?pA = 4" "osend_of 11 ?pA = 2" "isend_of 11 ?pB = 6" "osend_of 11 ?pB = 8"
    by (simp_all add: isend_of_def osend_of_def smod_int_alt_def)
  have h1: "[?pA, ?pB] \<noteq> []" by simp
  have h2: "\<forall>p \<in> set [?pA, ?pB].
              0 \<le> isend_of (exSize_of [?pA, ?pB]) p \<and> 0 \<le> osend_of (exSize_of [?pA, ?pB]) p"
    by (simp add: e x)
  show ?thesis
    using nByBlock_is_gcd_of_adjusted_extents [OF h1, THEN conjunct2, THEN mp, OF h2]
    by (simp add: e x)
qed

text \<open>Three processes that send 3, 3, 3 points and receive 6, 3, 0: the sum is odd, the
  last process counts a receive extent of \<open>-1\<close>, and the block extent that is stored is
  \<open>-1\<close>.\<close>

lemma smod_small:
  "1 smod (2::int) = 1" "2 smod (1::int) = 0" "1 smod (3::int) = 1"
  "3 smod (1::int) = 0" "6 smod (3::int) = 0" "3 smod (3::int) = 0"
  by (simp_all add: smod_int_alt_def)

lemma gcd_c_0: "gcd_c 0 b = b"
  by (subst gcd_c.simps) simp

lemma gcd_c_small:
  "gcd_c 3 6 = 3" "gcd_c 3 3 = 3" "gcd_c 2 (- 1) = - 1" "gcd_c 3 (- 1) = - 1"
proof -
  have m: "gcd_c (- 1) 2 = - 1" "gcd_c (- 1) 3 = - 1"
    by (subst gcd_c.simps, simp add: smod_small gcd_c_0 del: gcd_c.simps)+
  show "gcd_c 3 6 = 3" "gcd_c 3 3 = 3" "gcd_c 2 (- 1) = - 1" "gcd_c 3 (- 1) = - 1"
    by (subst gcd_c.simps, simp add: smod_small gcd_c_0 m del: gcd_c.simps)+
qed

lemma nByBlock_negative_extent:
  "cmpt_nByBlock
     [\<lparr>istart = 0, iend = 3, ostart = 0, oend = 6, in_rankd = 0, in_nproc = 3, out_rankd = 0, out_nproc = 3\<rparr>,
      \<lparr>istart = 0, iend = 3, ostart = 0, oend = 3, in_rankd = 1, in_nproc = 3, out_rankd = 1, out_nproc = 3\<rparr>,
      \<lparr>istart = 0, iend = 3, ostart = 0, oend = 0, in_rankd = 2, in_nproc = 3, out_rankd = 2, out_nproc = 3\<rparr>]
   = - 1"
proof -
  let ?pA = "\<lparr>istart = 0, iend = 3, ostart = 0, oend = 6, in_rankd = 0, in_nproc = 3, out_rankd = 0, out_nproc = 3\<rparr>"
  let ?pB = "\<lparr>istart = 0, iend = 3, ostart = 0, oend = 3, in_rankd = 1, in_nproc = 3, out_rankd = 1, out_nproc = 3\<rparr>"
  let ?pC = "\<lparr>istart = 0, iend = 3, ostart = 0, oend = 0, in_rankd = 2, in_nproc = 3, out_rankd = 2, out_nproc = 3\<rparr>"
  have e: "exSize_of [?pA, ?pB, ?pC] = 9" by (simp add: exSize_of_def)
  have x: "isend_of 9 ?pA = 3" "osend_of 9 ?pA = 6" "isend_of 9 ?pB = 3" "osend_of 9 ?pB = 3"
    "isend_of 9 ?pC = 2" "osend_of 9 ?pC = - 1"
    by (simp_all add: isend_of_def osend_of_def smod_int_alt_def)
  have u: "[1..<length [?pA, ?pB, ?pC]] = [1, 2]" by (simp add: upt_conv_Cons)
  show ?thesis
    unfolding cmpt_nByBlock_def Let_def e u by (simp add: x gcd_c_small del: gcd_c.simps)
qed

text \<open>
  Claim C3, as the specification states it, fails when the summed extent is odd: one
  process that sends and receives three points in a direction gets blocks of two points,
  not of three.
\<close>

theorem nByBlock_odd_extent_counterexample:
  "cmpt_nByBlock
     [\<lparr>istart = 0, iend = 3, ostart = 0, oend = 3, in_rankd = 0, in_nproc = 1, out_rankd = 0, out_nproc = 1\<rparr>]
     = 2
   \<and> Gcd (\<Union>p \<in> set [\<lparr>istart = 0, iend = 3, ostart = 0, oend = 3,
                           in_rankd = 0, in_nproc = 1, out_rankd = 0, out_nproc = 1\<rparr>].
             {iend p - istart p, oend p - ostart p}) = 3"
  by (simp add: cmpt_nByBlock_def exSize_of_def isend_of_def osend_of_def smod_int_alt_def)

subsection \<open>Uniform or variable all-to-all\<close>

lemma cmpt_is_all2all_iff:
  "cmpt_is_all2all subsize i2o o2i \<longleftrightarrow>
     i2o ! 0 \<noteq> 0 \<and> (\<forall>ir. 1 \<le> ir \<and> ir < subsize \<longrightarrow> i2o ! ir = i2o ! 0 \<and> o2i ! ir = i2o ! 0)"
proof -
  have "fold (\<lambda>ir is_all2all. (is_all2all \<and> t = i2o ! ir) \<and> t = o2i ! ir) [1..<n] b
        \<longleftrightarrow> b \<and> (\<forall>ir. 1 \<le> ir \<and> ir < n \<longrightarrow> i2o ! ir = t \<and> o2i ! ir = t)" for n t b
  proof (induction n)
    case 0
    show ?case by simp
  next
    case (Suc n)
    show ?case
    proof (cases "1 \<le> n")
      case True
      then have "[1..<Suc n] = [1..<n] @ [n]" by simp
      then show ?thesis using Suc True by (auto simp: less_Suc_eq)
    next
      case False
      then show ?thesis by auto
    qed
  qed
  then show ?thesis by (simp add: cmpt_is_all2all_def Let_def)
qed

text \<open>
  Claim C4, as the code has it. With the flag set by the constructor, the exchange of
  \<open>execute\<close> is the uniform \<open>MPI_Alltoall\<close> whenever all the counts sent to and
  received from the ranks of the sub-communicator are one and the same non-zero number;
  it is the variable \<open>MPI_Alltoallv\<close>, on the counts and starts of the direction of
  the transpose, whenever the count sent to rank 0 is zero, or a count sent to some rank
  differs from it, or a count received from a rank other than rank 0 differs from it.
\<close>

theorem a2a_exchange_choice:
  assumes "0 < subsize" and "sign = FLUPS_FORWARD \<or> sign = FLUPS_BACKWARD"
  shows "(c \<noteq> 0 \<and> (\<forall>r<subsize. i2o ! r = c \<and> o2i ! r = c) \<longrightarrow>
            execute_exchange (init_a2a_counts subsize i2o i2o_s o2i o2i_s) sign = Inr (MPI_Alltoall c c))
       \<and> (i2o ! 0 = 0 \<or> (\<exists>r<subsize. i2o ! r \<noteq> i2o ! 0) \<or> (\<exists>r. 1 \<le> r \<and> r < subsize \<and> o2i ! r \<noteq> i2o ! 0) \<longrightarrow>
            (\<exists>sc ss rc rs. execute_exchange (init_a2a_counts subsize i2o i2o_s o2i o2i_s) sign
               = Inr (MPI_Alltoallv sc ss rc rs) \<and>
               (sign = FLUPS_FORWARD \<longrightarrow> sc = i2o \<and> ss = i2o_s \<and> rc = o2i \<and> rs = o2i_s) \<and>
               (sign = FLUPS_BACKWARD \<longrightarrow> sc = o2i \<and> ss = o2i_s \<and> rc = i2o \<and> rs = i2o_s)))"
proof (intro conjI impI)
  assume a: "c \<noteq> 0 \<and> (\<forall>r<subsize. i2o ! r = c \<and> o2i ! r = c)"
  then have c0: "i2o ! 0 = c" "o2i ! 0 = c" using assms(1) by auto
  have "cmpt_is_all2all subsize i2o o2i" using a c0 by (simp add: cmpt_is_all2all_iff)
  then show "execute_exchange (init_a2a_counts subsize i2o i2o_s o2i o2i_s) sign = Inr (MPI_Alltoall c c)"
    using assms(2) c0 by (auto simp: execute_exchange_def init_a2a_counts_def)
next
  assume b: "i2o ! 0 = 0 \<or> (\<exists>r<subsize. i2o ! r \<noteq> i2o ! 0) \<or> (\<exists>r. 1 \<le> r \<and> r < subsize \<and> o2i ! r \<noteq> i2o ! 0)"
  have "\<not> cmpt_is_all2all subsize i2o o2i"
  proof
    assume t: "cmpt_is_all2all subsize i2o o2i"
    then have nz: "i2o ! 0 \<noteq> 0"
      and eq: "\<And>ir. 1 \<le> ir \<Longrightarrow> ir < subsize \<Longrightarrow> i2o ! ir = i2o ! 0 \<and> o2i ! ir = i2o ! 0"
      by (simp_all add: cmpt_is_all2all_iff)
    from b nz consider r where "r < subsize" "i2o ! r \<noteq> i2o ! 0" | r where "1 \<le> r" "r < subsize" "o2i ! r \<noteq> i2o ! 0"
      by blast
    then show False
    proof cases
      case 1
      then have "1 \<le> r" by (cases r) auto
      with eq 1 show False by blast
    next
      case 2
      with eq show False by blast
    qed
  qed
  then show "\<exists>sc ss rc rs. execute_exchange (init_a2a_counts subsize i2o i2o_s o2i o2i_s) sign
               = Inr (MPI_Alltoallv sc ss rc rs) \<and>
               (sign = FLUPS_FORWARD \<longrightarrow> sc = i2o \<and> ss = i2o_s \<and> rc = o2i \<and> rs = o2i_s) \<and>
               (sign = FLUPS_BACKWARD \<longrightarrow> sc = o2i \<and> ss = o2i_s \<and> rc = i2o \<and> rs = i2o_s)"
    using assms(2) by (auto simp: execute_exchange_def init_a2a_counts_def)
qed

theorem a2a_exchange_choice_witness:
  "execute_exchange (init_a2a_counts 2 [4, 4] [0, 4] [4, 4] [0, 4]) FLUPS_FORWARD = Inr (MPI_Alltoall 4 4)
   \<and> execute_exchange (init_a2a_counts 2 [4, 8] [0, 8] [4, 8] [0, 8]) FLUPS_BACKWARD
       = Inr (MPI_Alltoallv [4, 8] [0, 8] [4, 8] [0, 8])"
proof -
  have h1: "0 < (2::nat)" by simp
  have u: "\<forall>r<2. [4, 4::int] ! r = 4 \<and> [4, 4::int] ! r = 4" by (simp add: less_Suc_eq numeral_2_eq_2)
  have v: "\<exists>r<2. [4, 8::int] ! r \<noteq> [4, 8] ! 0" by (rule exI [of _ 1]) simp
  from a2a_exchange_choice [OF h1, of FLUPS_FORWARD 4 "[4, 4]" "[4, 4]" "[0, 4]" "[0, 4]"] u
  have "execute_exchange (init_a2a_counts 2 [4, 4] [0, 4] [4, 4] [0, 4]) FLUPS_FORWARD = Inr (MPI_Alltoall 4 4)"
    by simp
  moreover from a2a_exchange_choice [OF h1, of FLUPS_BACKWARD 4 "[4, 8]" "[4, 8]" "[0, 8]" "[0, 8]"] v
  have "execute_exchange (init_a2a_counts 2 [4, 8] [0, 8] [4, 8] [0, 8]) FLUPS_BACKWARD
       = Inr (MPI_Alltoallv [4, 8] [0, 8] [4, 8] [0, 8])"
    by auto
  ultimately show ?thesis by simp
qed

text \<open>
  Claim C4, as the specification states it, fails on a process that exchanges nothing:
  in a sub-communicator of one rank with zero counts all counts are equal, and the
  exchange is the variable one (the constructor asks for a non-zero count).
\<close>

theorem a2a_zero_counts_use_alltoallv:
  "execute_exchange (init_a2a_counts 1 [0] [0] [0] [0]) FLUPS_FORWARD = Inr (MPI_Alltoallv [0] [0] [0] [0])
   \<and> list_all (\<lambda>c. c = [0::int] ! 0) ([0] @ [0])"
  by (simp add: execute_exchange_def init_a2a_counts_def cmpt_is_all2all_def)

text \<open>The loop of the constructor starts at rank 1 and compares every count with
  \<open>_i2o_count[0]\<close>: the count received from rank 0 is never looked at.\<close>

lemma is_all2all_skips_recv_count_of_rank0:
  "execute_exchange (init_a2a_counts 2 [4, 4] [0, 4] [8, 4] [0, 8]) FLUPS_FORWARD = Inr (MPI_Alltoall 4 8)"
  by code_simp

subsection \<open>Counts and starts\<close>

text \<open>What the two loops compute: the start of rank \<open>r\<close> in the all-to-all transpose is
  the sum of the counts of the ranks 1 to \<open>r\<close>; in the first version of the transpose
  it is the sum of the counts of the ranks below \<open>r\<close>, and so is the offset that
  \<open>setup_buffers\<close> gives to the blocks of rank \<open>r\<close>.\<close>

lemma cmpt_start_invariant:
  fixes count :: "int list"
  assumes "n \<le> subsize"
  defines "F \<equiv> fold (\<lambda>ir start. start[ir := start ! (ir - 1) + count ! ir]) [1..<n] (replicate subsize (0::int))"
  shows "length F = subsize \<and> (\<forall>r<n. F ! r = (\<Sum>k = 1..r. count ! k))"
  using assms(1) unfolding F_def
proof (induction n)
  case 0
  show ?case by simp
next
  case (Suc n)
  let ?f = "\<lambda>ir start. start[ir := start ! (ir - 1) + count ! ir]"
  let ?F = "fold ?f [1..<n] (replicate subsize (0::int))"
  have IH: "length ?F = subsize" "\<And>r. r < n \<Longrightarrow> ?F ! r = (\<Sum>k = 1..r. count ! k)"
    using Suc by simp_all
  show ?case
  proof (cases "1 \<le> n")
    case False
    then have "n = 0" by simp
    then show ?thesis using Suc.prems by simp
  next
    case True
    then have step: "fold ?f [1..<Suc n] (replicate subsize 0) = ?F[n := ?F ! (n - 1) + count ! n]"
      by simp
    have n: "n < subsize" using Suc.prems by simp
    have "(?F[n := ?F ! (n - 1) + count ! n]) ! r = (\<Sum>k = 1..r. count ! k)" if "r < Suc n" for r
    proof (cases "r = n")
      case False
      with that have "r < n" by simp
      with IH False show ?thesis by simp
    next
      case r: True
      have "?F ! (n - 1) = (\<Sum>k = 1..n - 1. count ! k)" using IH(2) [of "n - 1"] True by simp
      moreover have "{1..n} = insert n {1..n - 1}" using True by auto
      ultimately show ?thesis using r n IH(1) True by simp
    qed
    then show ?thesis unfolding step using IH(1) by simp
  qed
qed

lemma cmpt_start_nth:
  assumes "r < subsize"
  shows "cmpt_start subsize count ! r = (\<Sum>k = 1..r. count ! k)"
proof -
  have "(replicate subsize (0::int))[0 := 0] = replicate subsize 0"
    by (simp add: list_eq_iff_nth_eq nth_list_update)
  then show ?thesis
    using cmpt_start_invariant [of subsize subsize count] assms
    by (simp add: cmpt_start_def)
qed

lemma cmpt_ssend_invariant:
  fixes nsend nrecv :: "int list"
  assumes "n \<le> comm_size"
  defines "F \<equiv> fold (\<lambda>i (ssend, srecv).
             (ssend[i := ssend ! (i - 1) + nsend ! (i - 1)],
              srecv[i := srecv ! (i - 1) + nrecv ! (i - 1)]))
          [1..<n] (replicate comm_size (0::int), replicate comm_size (0::int))"
  shows "length (fst F) = comm_size \<and> length (snd F) = comm_size \<and>
         (\<forall>r<n. fst F ! r = (\<Sum>k<r. nsend ! k) \<and> snd F ! r = (\<Sum>k<r. nrecv ! k))"
  using assms(1) unfolding F_def
proof (induction n)
  case 0
  show ?case by simp
next
  case (Suc n)
  let ?f = "\<lambda>i (ssend, srecv).
             (ssend[i := ssend ! (i - 1) + nsend ! (i - 1)],
              srecv[i := srecv ! (i - 1) + nrecv ! (i - 1)])"
  let ?F = "fold ?f [1..<n] (replicate comm_size (0::int), replicate comm_size (0::int))"
  obtain ss sr where F: "?F = (ss, sr)" by (cases ?F)
  have IH: "length ss = comm_size" "length sr = comm_size"
    "\<And>r. r < n \<Longrightarrow> ss ! r = (\<Sum>k<r. nsend ! k)" "\<And>r. r < n \<Longrightarrow> sr ! r = (\<Sum>k<r. nrecv ! k)"
    using Suc F by simp_all
  show ?case
  proof (cases "1 \<le> n")
    case False
    then have "n = 0" by simp
    then show ?thesis using Suc.prems by simp
  next
    case True
    then have step: "fold ?f [1..<Suc n] (replicate comm_size 0, replicate comm_size 0)
       = (ss[n := ss ! (n - 1) + nsend ! (n - 1)], sr[n := sr ! (n - 1) + nrecv ! (n - 1)])"
      using F by simp
    have n: "n < comm_size" using Suc.prems by simp
    have lt: "{..<n} = insert (n - 1) {..<n - 1}" using True by auto
    have "(ss[n := ss ! (n - 1) + nsend ! (n - 1)]) ! r = (\<Sum>k<r. nsend ! k) \<and>
          (sr[n := sr ! (n - 1) + nrecv ! (n - 1)]) ! r = (\<Sum>k<r. nrecv ! k)" if "r < Suc n" for r
    proof (cases "r = n")
      case False
      with that have "r < n" by simp
      with IH False show ?thesis by simp
    next
      case r: True
      have "ss ! (n - 1) = (\<Sum>k<n - 1. nsend ! k)" "sr ! (n - 1) = (\<Sum>k<n - 1. nrecv ! k)"
        using IH(3) [of "n - 1"] IH(4) [of "n - 1"] True by simp_all
      then show ?thesis using r n IH(1,2) lt by simp
    qed
    then show ?thesis unfolding step using IH(1,2) by simp
  qed
qed

lemma cmpt_ssend_srecv_nth:
  assumes "r < comm_size"
  shows "fst (cmpt_ssend_srecv comm_size nsend nrecv) ! r = (\<Sum>k<r. nsend ! k)"
    and "snd (cmpt_ssend_srecv comm_size nsend nrecv) ! r = (\<Sum>k<r. nrecv ! k)"
  using cmpt_ssend_invariant [of comm_size comm_size nsend nrecv] assms
  by (simp_all add: cmpt_ssend_srecv_def)

lemma memblocks_eq: "memblocks count destrank = (\<Sum>k<destrank. count ! k)"
proof -
  have "fold (\<lambda>ir m. m + count ! ir) [0..<n] 0 = (\<Sum>k<n. count ! k)" for n
    by (induction n) simp_all
  then show ?thesis by (simp add: memblocks_def)
qed

text \<open>
  Claim C5 (the starts passed to \<open>MPI_Alltoallv\<close> are the exclusive prefix sums of the
  counts) does not hold of \<open>_setup_subComm\<close>. Three ranks, blocks of one double, one
  block for rank 0 and two for rank 1: the counts are 1, 2, 0 and the starts 0, 2, 2,
  so the data of rank 1 does not begin where the data of rank 0 ends. The loop of
  SwitchTopo::SwitchTopo gives 0, 1, 3 on the same counts.
\<close>

theorem setup_subComm_start_is_not_exclusive_prefix_sum:
  "setup_subComm [0, 1, 2] 3 1 [0, 1, 1] = Inr ([0, 1, 1], [1, 2, 0], [0, 2, 2])
   \<and> [0, 2, 2 :: int] ! 1 \<noteq> [0, 2, 2] ! 0 + [1, 2, 0] ! 0
   \<and> fst (cmpt_ssend_srecv 3 [1, 2, 0] [1, 2, 0]) = [0, 1, 3]"
  by code_simp

subsection \<open>The padding of a topology\<close>













subsection \<open>Scaling the Green's function\<close>












subsection \<open>Reading the kernel of the lattice Green's function\<close>

lemma decimal_64: "decimal 64 = ''64''" by code_simp
lemma decimal_32: "decimal 32 = ''32''" by code_simp

lemma lgf_readfile_3:
  "lgf_readfile path files 3 =
     (case files (path @ ''/LGF_3d_sym_acc12_64.ker'') of
        None \<Rightarrow> Inl Fatal
      | Some xs \<Rightarrow> Inr \<lparr>lgf_N = 64, lgf_name = path @ ''/LGF_3d_sym_acc12_64.ker'',
                        lgf_size = 262144, lgf_samples = take 262144 xs\<rparr>)"
  by (simp add: lgf_readfile_def decimal_64 fread_def FLUPS_ERROR_def Let_def split: option.split)

lemma lgf_readfile_2:
  "lgf_readfile path files 2 =
     (case files (path @ ''/LGF_2d_sym_acc12_32.ker'') of
        None \<Rightarrow> Inl Fatal
      | Some xs \<Rightarrow> Inr \<lparr>lgf_N = 32, lgf_name = path @ ''/LGF_2d_sym_acc12_32.ker'',
                        lgf_size = 32768, lgf_samples = take 32768 xs\<rparr>)"
  by (simp add: lgf_readfile_def decimal_32 fread_def FLUPS_ERROR_def Let_def split: option.split)

lemma lgf_readfile_other:
  "greendim \<noteq> 3 \<Longrightarrow> greendim \<noteq> 2 \<Longrightarrow> lgf_readfile path files greendim = Inl Fatal"
  by (simp add: lgf_readfile_def FLUPS_ERROR_def)

text \<open>
  Claim C9, as the code has it. For a 3-D problem \<open>_lgf_readfile\<close> opens
  \<open>LGF_3d_sym_acc12_64.ker\<close> under the kernel path, with \<open>N = 64\<close>, and reads exactly
  \<open>64^3\<close> samples when the file holds at least that many; for a 2-D problem it opens
  \<open>LGF_2d_sym_acc12_32.ker\<close>, with \<open>N = 32\<close>, and reads exactly the \<open>32^2\<close> samples of
  a file that holds \<open>32^2\<close> samples. In both cases it aborts when the file cannot be
  opened.
\<close>

theorem lgf_readfile_reads_kernel:
  "(files (path @ ''/LGF_3d_sym_acc12_64.ker'') = Some xs \<and> 64 ^ 3 \<le> length xs \<longrightarrow>
      (\<exists>k. lgf_readfile path files 3 = Inr k \<and> lgf_N k = 64
           \<and> lgf_name k = path @ ''/LGF_3d_sym_acc12_64.ker''
           \<and> lgf_samples k = take (64 ^ 3) xs \<and> length (lgf_samples k) = 64 ^ 3))
   \<and> (files (path @ ''/LGF_2d_sym_acc12_32.ker'') = Some ys \<and> length ys = 32 ^ 2 \<longrightarrow>
      (\<exists>k. lgf_readfile path files 2 = Inr k \<and> lgf_N k = 32
           \<and> lgf_name k = path @ ''/LGF_2d_sym_acc12_32.ker''
           \<and> lgf_samples k = ys \<and> length (lgf_samples k) = 32 ^ 2))
   \<and> (files (path @ ''/LGF_3d_sym_acc12_64.ker'') = None \<longrightarrow> lgf_readfile path files 3 = Inl Fatal)
   \<and> (files (path @ ''/LGF_2d_sym_acc12_32.ker'') = None \<longrightarrow> lgf_readfile path files 2 = Inl Fatal)"
  by (simp add: lgf_readfile_3 lgf_readfile_2)

theorem lgf_readfile_reads_kernel_witness:
  "(\<exists>k. lgf_readfile ''kernel''
           [''kernel/LGF_3d_sym_acc12_64.ker'' \<mapsto> replicate 262144 (0::int),
            ''kernel/LGF_2d_sym_acc12_32.ker'' \<mapsto> replicate 1024 0] 3 = Inr k
        \<and> lgf_N k = 64 \<and> length (lgf_samples k) = 262144)
   \<and> (\<exists>k. lgf_readfile ''kernel''
           [''kernel/LGF_3d_sym_acc12_64.ker'' \<mapsto> replicate 262144 (0::int),
            ''kernel/LGF_2d_sym_acc12_32.ker'' \<mapsto> replicate 1024 0] 2 = Inr k
        \<and> lgf_N k = 32 \<and> length (lgf_samples k) = 1024)
   \<and> lgf_readfile ''kernel'' (Map.empty :: string \<rightharpoonup> int list) 3 = Inl Fatal"
  using lgf_readfile_reads_kernel [of
      "[''kernel/LGF_3d_sym_acc12_64.ker'' \<mapsto> replicate 262144 (0::int),
        ''kernel/LGF_2d_sym_acc12_32.ker'' \<mapsto> replicate 1024 0]"
      "''kernel''" "replicate 262144 0" "replicate 1024 0"]
    lgf_readfile_reads_kernel [of "Map.empty :: string \<rightharpoonup> int list" "''kernel''" "[]" "[]"]
  by auto

text \<open>
  Claim C9, as the specification states it ("reading exactly \<open>N^3\<close> samples"), fails
  on a kernel file that is too short: the result of \<open>fread\<close> is not looked at, the two
  samples of the file are read and the run goes on.
\<close>

theorem lgf_readfile_short_file_counterexample:
  "lgf_readfile ''kernel'' [''kernel/LGF_3d_sym_acc12_64.ker'' \<mapsto> [1, 2 :: int]] 3
     = Inr \<lparr>lgf_N = 64, lgf_name = ''kernel/LGF_3d_sym_acc12_64.ker'', lgf_size = 262144,
            lgf_samples = [1, 2]\<rparr>
   \<and> length [1, 2 :: int] \<noteq> 64 ^ 3"
  by (simp add: lgf_readfile_3)

text \<open>The number of doubles allocated and asked for is \<open>N * N * N\<close> whatever the
  dimension: in 2-D the buffer has \<open>32^3\<close> doubles and a file longer than \<open>32^2\<close>
  samples is read beyond them.\<close>

lemma lgf_readfile_2d_buffer_is_a_cube:
  "files (path @ ''/LGF_2d_sym_acc12_32.ker'') = Some ys \<Longrightarrow>
     \<exists>k. lgf_readfile path files 2 = Inr k \<and> lgf_size k = 32 ^ 3
        \<and> lgf_samples k = take (32 ^ 3) ys"
  by (simp add: lgf_readfile_2)


subsection \<open>The rotational solve needs a derivative order\<close>






end
